theory Spec2Isabelle
  imports Complex_Main "HOL-Library.Sublist"
begin

section \<open>Scoring (utils/reader.tsx, types/tossupReader.ts)\<close>

text \<open>
  The numeric enum \<^verbatim>\<open>TossupScore\<close> of types/tossupReader.ts:
  \<^verbatim>\<open>neg = -5, ten = 10, power = 15\<close>.  Its members are JavaScript numbers; every
  value that occurs is a small integer, so they are modelled as \<^typ>\<open>int\<close>.
\<close>

definition TossupScore_neg :: int where
  "TossupScore_neg = - 5"

definition TossupScore_ten :: int where
  "TossupScore_ten = 10"

definition TossupScore_power :: int where
  "TossupScore_power = 15"

text \<open>
  Modelled from the spec: the enum member \<^verbatim>\<open>TossupScore.incorrect\<close>, which
  \<^verbatim>\<open>getTossupScore\<close> reads from types/tossups (a file that is not among the sources;
  the enum of types/tossupReader.ts has no such member).  The specification gives its
  value: an incorrect answer after the question has ended scores zero.
\<close>

definition TossupScore_incorrect :: int where
  "TossupScore_incorrect = 0"

definition getTossupScore :: "bool \<Rightarrow> bool \<Rightarrow> bool \<Rightarrow> int" where
  "getTossupScore isCorrect isInPower didBuzzAtEnd =
     (if isCorrect then (if isInPower then TossupScore_power else TossupScore_ten)
      else (if didBuzzAtEnd then TossupScore_incorrect else TossupScore_neg))"

text \<open>
  \<^verbatim>\<open>BonusPartResult\<close> is declared in types/bonus, which is not among the sources;
  \<^verbatim>\<open>getBonusScore\<close> reads only its field \<^verbatim>\<open>isCorrect\<close>.
\<close>

record BonusPartResult =
  isCorrect :: bool

text \<open>
  Modelled from the spec: the enum \<^verbatim>\<open>BonusScore\<close> of types/bonus (not among the
  sources), whose members \<^verbatim>\<open>zero, ten, twenty, thirty\<close> are the four fixed point
  totals 0, 10, 20 and 30 of the specification.
\<close>

definition BonusScore_zero :: int where
  "BonusScore_zero = 0"

definition BonusScore_ten :: int where
  "BonusScore_ten = 10"

definition BonusScore_twenty :: int where
  "BonusScore_twenty = 20"

definition BonusScore_thirty :: int where
  "BonusScore_thirty = 30"

text \<open>The \<^verbatim>\<open>reduce\<close> of \<^verbatim>\<open>getBonusScore\<close>: a left fold from 0.\<close>

definition correctCount :: "'a BonusPartResult_scheme list \<Rightarrow> int" where
  "correctCount results = fold (\<lambda>res acc. acc + (if isCorrect res then 1 else 0)) results 0"

definition getBonusScore :: "'a BonusPartResult_scheme list \<Rightarrow> int" where
  "getBonusScore results =
     (if correctCount results = 3 then BonusScore_thirty
      else if correctCount results = 2 then BonusScore_twenty
      else if correctCount results = 1 then BonusScore_ten
      else BonusScore_zero)"


section \<open>The tossup reader slice (tossupReaderSlice)\<close>

datatype ReaderStatus = idle | fetching | reading | answering | prompting | judged | empty

text \<open>
  The types of types/tossupReader.ts.  \<^verbatim>\<open>Category\<close>, \<^verbatim>\<open>Subcategory\<close> and
  \<^verbatim>\<open>Difficulty\<close> are numeric enums of types/questions; they are kept as numbers.
  The field \<^verbatim>\<open>text\<close> of a tossup is called \<open>tossup_text\<close>, and the fields of
  \<^verbatim>\<open>TossupResult\<close> carry the prefix \<open>result_\<close>, because \<^verbatim>\<open>score\<close>,
  \<^verbatim>\<open>buzz\<close> and \<^verbatim>\<open>isCorrect\<close> name other things of the program as well.
\<close>

record Tossup =
  tossup_text :: string
  answer :: string
  formattedText :: string
  formattedAnswer :: string
  category :: nat
  subcategory :: nat
  difficulty :: nat
  tournament :: string

record TossupReaderWord =
  original :: string
  shuffled :: string
  isInPower :: bool

record TossupBuzz =
  isPower :: bool
  readText :: string
  index :: int
  textWithBuzz :: "TossupReaderWord list"

record TossupResult =
  result_tossup :: Tossup
  result_isCorrect :: bool
  result_submittedAnswer :: string
  result_score :: int
  result_buzz :: TossupBuzz

text \<open>
  \<^verbatim>\<open>currentTossup\<close> and \<^verbatim>\<open>currentResult\<close> start as the empty object
  \<^verbatim>\<open>{} as Tossup\<close>, and \<^verbatim>\<open>[state.currentTossup] = state.tossups\<close> stores
  \<^verbatim>\<open>undefined\<close> when the queue is empty: a slot holds the empty object, undefined
  or a value.
\<close>

datatype 'a slot = EmptyObject | Undefined | Obj 'a

record TossupReaderState =
  status :: ReaderStatus
  tossups :: "Tossup list"
  results :: "TossupResult list"
  currentTossup :: "Tossup slot"
  currentResult :: "TossupResult slot"
  currentBuzz :: TossupBuzz
  score :: int

definition initialState :: TossupReaderState where
  "initialState =
     \<lparr>status = idle, tossups = [], results = [],
      currentTossup = EmptyObject, currentResult = EmptyObject,
      currentBuzz = \<lparr>isPower = False, readText = [], index = 0, textWithBuzz = []\<rparr>,
      score = 0\<rparr>"

subsection \<open>Reducers\<close>

definition buzz :: "TossupReaderState \<Rightarrow> TossupReaderState" where
  "buzz state = (if status state = reading then state\<lparr>status := answering\<rparr> else state)"

definition setBuzz :: "TossupReaderState \<Rightarrow> TossupBuzz \<Rightarrow> TossupReaderState" where
  "setBuzz state payload = state\<lparr>currentBuzz := payload\<rparr>"

definition prompt :: "TossupReaderState \<Rightarrow> TossupReaderState" where
  "prompt state =
     (if status state \<in> set [answering, prompting]
      then state\<lparr>status := prompting\<rparr> else state)"

text \<open>\<^verbatim>\<open>state.results.unshift(payload)\<close> puts the payload in front of the list.\<close>

definition submitAnswer :: "TossupReaderState \<Rightarrow> TossupResult \<Rightarrow> TossupReaderState" where
  "submitAnswer state payload =
     (if status state = answering \<or> status state = prompting
      then state\<lparr>status := judged,
                 currentResult := Obj payload,
                 results := payload # results state,
                 score := score state + result_score payload\<rparr>
      else state)"

definition filterTossupsByCategory :: "TossupReaderState \<Rightarrow> nat list \<Rightarrow> TossupReaderState" where
  "filterTossupsByCategory state payload =
     state\<lparr>tossups := filter (\<lambda>tu. category tu \<in> set payload) (tossups state)\<rparr>"

definition filterTossupsBySubcategory :: "TossupReaderState \<Rightarrow> nat list \<Rightarrow> TossupReaderState" where
  "filterTossupsBySubcategory state payload =
     state\<lparr>tossups := filter (\<lambda>tu. subcategory tu \<in> set payload) (tossups state)\<rparr>"

definition filterTossupsByDifficulties :: "TossupReaderState \<Rightarrow> nat list \<Rightarrow> TossupReaderState" where
  "filterTossupsByDifficulties state payload =
     state\<lparr>tossups := filter (\<lambda>tu. difficulty tu \<in> set payload) (tossups state)\<rparr>"

subsection \<open>Extra reducers: the two thunks\<close>

definition fetchTossups_fulfilled :: "TossupReaderState \<Rightarrow> Tossup list \<Rightarrow> TossupReaderState" where
  "fetchTossups_fulfilled state payload = state\<lparr>tossups := tossups state @ payload\<rparr>"

text \<open>The \<^verbatim>\<open>condition\<close> of the thunk \<^verbatim>\<open>nextTossup\<close>.\<close>

definition nextTossup_condition :: "TossupReaderState \<Rightarrow> bool" where
  "nextTossup_condition state = (status state \<in> set [idle, judged])"

definition nextTossup_pending :: "TossupReaderState \<Rightarrow> TossupReaderState" where
  "nextTossup_pending state = state\<lparr>status := fetching\<rparr>"

text \<open>
  \<^verbatim>\<open>state.tossups.shift(); [state.currentTossup] = state.tossups\<close>: the head of the
  queue is dropped first, and the current tossup is the head of what is left.
\<close>

definition nextTossup_fulfilled :: "TossupReaderState \<Rightarrow> TossupReaderState" where
  "nextTossup_fulfilled state =
     (if length (tossups state) = 0 then state\<lparr>status := empty\<rparr>
      else state\<lparr>currentResult := EmptyObject,
                 tossups := tl (tossups state),
                 currentTossup := (case tl (tossups state) of [] \<Rightarrow> Undefined | t # _ \<Rightarrow> Obj t),
                 status := reading\<rparr>)"

subsection \<open>The store: which actions can reach the reducer\<close>

text \<open>
  An action of the slice, as the store sees it.  The plain actions and
  \<^verbatim>\<open>fetchTossups.fulfilled\<close> can arrive at any time.  A dispatch of the thunk
  \<^verbatim>\<open>nextTossup\<close> first evaluates its \<^verbatim>\<open>condition\<close>; only when that holds is
  \<^verbatim>\<open>nextTossup.pending\<close> dispatched, and \<^verbatim>\<open>nextTossup.fulfilled\<close> follows once
  for each pending request when the payload creator has returned.  The configuration
  therefore counts the requests that are pending.
\<close>

datatype action =
    Buzz
  | SetBuzz TossupBuzz
  | Prompt
  | SubmitAnswer TossupResult
  | FilterTossupsByCategory "nat list"
  | FilterTossupsBySubcategory "nat list"
  | FilterTossupsByDifficulties "nat list"
  | FetchTossupsFulfilled "Tossup list"
  | NextTossupPending
  | NextTossupFulfilled

record config =
  reader :: TossupReaderState
  inFlight :: nat

definition initialConfig :: config where
  "initialConfig = \<lparr>reader = initialState, inFlight = 0\<rparr>"

fun dispatch :: "config \<Rightarrow> action \<Rightarrow> config option" where
  "dispatch c Buzz = Some (c\<lparr>reader := buzz (reader c)\<rparr>)"
| "dispatch c (SetBuzz b) = Some (c\<lparr>reader := setBuzz (reader c) b\<rparr>)"
| "dispatch c Prompt = Some (c\<lparr>reader := prompt (reader c)\<rparr>)"
| "dispatch c (SubmitAnswer r) = Some (c\<lparr>reader := submitAnswer (reader c) r\<rparr>)"
| "dispatch c (FilterTossupsByCategory p) =
     Some (c\<lparr>reader := filterTossupsByCategory (reader c) p\<rparr>)"
| "dispatch c (FilterTossupsBySubcategory p) =
     Some (c\<lparr>reader := filterTossupsBySubcategory (reader c) p\<rparr>)"
| "dispatch c (FilterTossupsByDifficulties p) =
     Some (c\<lparr>reader := filterTossupsByDifficulties (reader c) p\<rparr>)"
| "dispatch c (FetchTossupsFulfilled p) =
     Some (c\<lparr>reader := fetchTossups_fulfilled (reader c) p\<rparr>)"
| "dispatch c NextTossupPending =
     (if nextTossup_condition (reader c)
      then Some \<lparr>reader = nextTossup_pending (reader c), inFlight = Suc (inFlight c)\<rparr>
      else None)"
| "dispatch c NextTossupFulfilled =
     (if 0 < inFlight c
      then Some \<lparr>reader = nextTossup_fulfilled (reader c), inFlight = inFlight c - 1\<rparr>
      else None)"

inductive reachable :: "config \<Rightarrow> bool" where
  reachable_init: "reachable initialConfig"
| reachable_step: "reachable c \<Longrightarrow> dispatch c a = Some c' \<Longrightarrow> reachable c'"

text \<open>
  The status diagram as the specification draws it:
  idle \<open>\<rightarrow>\<close> fetching \<open>\<rightarrow>\<close> reading \<open>\<rightarrow>\<close> {answering | prompting} \<open>\<rightarrow>\<close> judged
  \<open>\<rightarrow>\<close> (idle | fetching), with empty reached from fetching, a prompt leading from
  answering to prompting and staying there when repeated.
\<close>

fun legal_transition :: "ReaderStatus \<Rightarrow> ReaderStatus \<Rightarrow> bool" where
  "legal_transition idle t = (t = fetching)"
| "legal_transition fetching t = (t = reading \<or> t = empty)"
| "legal_transition reading t = (t = answering)"
| "legal_transition answering t = (t = prompting \<or> t = judged)"
| "legal_transition prompting t = (t = prompting \<or> t = judged)"
| "legal_transition judged t = (t = idle \<or> t = fetching)"
| "legal_transition empty t = False"

section \<open>The judge (utils/reader.tsx)\<close>

subsection \<open>The dependency string-similarity\<close>

text \<open>
  \<^verbatim>\<open>checkAnswer\<close> calls \<^verbatim>\<open>ss.findBestMatch\<close> of the npm package string-similarity,
  which is a dependency and not a file of the repository.  \<^verbatim>\<open>findBestMatch\<close> rates
  every target against the main string with the package's \<^verbatim>\<open>compareTwoStrings\<close>, keeps
  the ratings in the order of the targets, and starts with \<^verbatim>\<open>bestMatchIndex = 0\<close>,
  moving it to \<open>i\<close> whenever the rating of target \<open>i\<close> is strictly greater than the
  rating at the index held so far.  The rating function is a parameter \<open>sim\<close> of the
  model, so that what is proved about the judge holds for every rating function.
  Ratings are quotients of small integers and are modelled as rationals.
\<close>

record MatchResult =
  ratings :: "(string \<times> rat) list"
  bestMatchRating :: rat
  bestMatchIndex :: int

text \<open>
  The loop of \<^verbatim>\<open>findBestMatch\<close> after its first round: \<open>i\<close> is the index of the next
  target, \<open>best\<close> the index held so far and \<open>r\<close> the rating there.
\<close>

fun bestMatchLoop :: "rat list \<Rightarrow> nat \<Rightarrow> nat \<Rightarrow> rat \<Rightarrow> nat \<times> rat" where
  "bestMatchLoop [] i best r = (best, r)"
| "bestMatchLoop (x # xs) i best r =
     (if x > r then bestMatchLoop xs (Suc i) i x else bestMatchLoop xs (Suc i) best r)"

text \<open>
  \<^verbatim>\<open>findBestMatch\<close> on a non-empty array of targets, given as its head and tail (the
  package throws on an empty array, and \<^verbatim>\<open>checkAnswer\<close> never passes one).
\<close>

definition findBestMatch ::
  "(string \<Rightarrow> string \<Rightarrow> rat) \<Rightarrow> string \<Rightarrow> string \<Rightarrow> string list \<Rightarrow> MatchResult" where
  "findBestMatch sim mainString t ts =
     (let found = bestMatchLoop (map (sim mainString) ts) 1 0 (sim mainString t)
      in \<lparr>ratings = map (\<lambda>x. (x, sim mainString x)) (t # ts),
          bestMatchRating = snd found,
          bestMatchIndex = int (fst found)\<rparr>)"

text \<open>
  The package's \<^verbatim>\<open>compareTwoStrings\<close> (Dice's coefficient on bigrams), used where a
  concrete rating is evaluated: both strings lose their white space; equal strings rate 1;
  a string shorter than two characters rates 0; otherwise every bigram of the second
  string that is still available among the bigrams of the first counts once and uses that
  bigram up, and the rating is twice the count over the number of bigrams of both.
\<close>

definition isWhitespace :: "char \<Rightarrow> bool" where
  "isWhitespace c = (c \<in> set [CHR '' '', CHR 0x09, CHR 0x0A, CHR 0x0B, CHR 0x0C, CHR 0x0D])"

fun bigrams :: "string \<Rightarrow> (char \<times> char) list" where
  "bigrams (a # b # s) = (a, b) # bigrams (b # s)"
| "bigrams s = []"

fun intersectionSize :: "(char \<times> char) list \<Rightarrow> (char \<times> char) list \<Rightarrow> nat" where
  "intersectionSize firstBigrams [] = 0"
| "intersectionSize firstBigrams (b # bs) =
     (if b \<in> set firstBigrams then Suc (intersectionSize (remove1 b firstBigrams) bs)
      else intersectionSize firstBigrams bs)"

definition compareTwoStrings :: "string \<Rightarrow> string \<Rightarrow> rat" where
  "compareTwoStrings first second =
     (let f = filter (\<lambda>c. \<not> isWhitespace c) first;
          s = filter (\<lambda>c. \<not> isWhitespace c) second
      in if f = s then 1
         else if length f < 2 \<or> length s < 2 then 0
         else (2 * of_nat (intersectionSize (bigrams f) (bigrams s)))
              / (of_nat (length f) + of_nat (length s) - 2))"

subsection \<open>checkAnswer and the class Judge\<close>

text \<open>
  \<^verbatim>\<open>JudgeResult\<close> is an enum of types/tossups with the members \<^verbatim>\<open>correct\<close>,
  \<^verbatim>\<open>prompt\<close> and \<^verbatim>\<open>incorrect\<close>; its constructors are capitalised here because
  \<open>prompt\<close> is also a reducer of the slice.
\<close>

datatype JudgeResult = Correct | Prompt | Incorrect

definition checkAnswer ::
  "(string \<Rightarrow> string \<Rightarrow> rat) \<Rightarrow> string \<Rightarrow> string list \<Rightarrow> MatchResult" where
  "checkAnswer sim userAnswer answers =
     (case answers of
        [] \<Rightarrow> \<lparr>ratings = [], bestMatchRating = 0, bestMatchIndex = - 1\<rparr>
      | t # ts \<Rightarrow> findBestMatch sim userAnswer t ts)"

record Judge =
  acceptableAnswers :: "string list"
  promptableAnswers :: "string list"

definition MIN_RATING :: rat where
  "MIN_RATING = 6 / 10"

text \<open>
  \<^verbatim>\<open>Array.prototype.splice(start, 1)\<close>: a negative start counts from the end, a start
  beyond the end removes nothing.
\<close>

definition splice1 :: "int \<Rightarrow> 'a list \<Rightarrow> 'a list" where
  "splice1 start xs =
     (let len = int (length xs);
          k = nat (if start < 0 then max (len + start) 0 else min start len)
      in take k xs @ drop (Suc k) xs)"

text \<open>
  \<^verbatim>\<open>judge\<close> mutates \<^verbatim>\<open>this.promptableAnswers\<close>; the model returns the verdict together
  with the judge after the call.  The submission reaches \<^verbatim>\<open>checkAnswer\<close> as it is
  passed in.
\<close>

definition judge ::
  "(string \<Rightarrow> string \<Rightarrow> rat) \<Rightarrow> Judge \<Rightarrow> string \<Rightarrow> JudgeResult \<times> Judge" where
  "judge sim this userAnswer =
     (let ratings1 = checkAnswer sim userAnswer (acceptableAnswers this)
      in if bestMatchRating ratings1 > MIN_RATING then (Correct, this)
         else if length (promptableAnswers this) > 0 then
           (let ratings2 = checkAnswer sim userAnswer (promptableAnswers this)
            in if bestMatchRating ratings2 > MIN_RATING
               then (Prompt, this\<lparr>promptableAnswers :=
                        splice1 (bestMatchIndex ratings2) (promptableAnswers this)\<rparr>)
               else (Incorrect, this))
         else (Incorrect, this))"

text \<open>
  The best score of a submission against a list of answers, stated independently of the
  loop: the greatest rating, and 0 for the empty list.
\<close>

definition bestRating :: "(string \<Rightarrow> string \<Rightarrow> rat) \<Rightarrow> string \<Rightarrow> string list \<Rightarrow> rat" where
  "bestRating sim userAnswer answers =
     (if answers = [] then 0 else Max (set (map (sim userAnswer) answers)))"

text \<open>\<^verbatim>\<open>String.prototype.toLowerCase\<close> on ASCII letters.\<close>

definition toLowerCase :: "string \<Rightarrow> string" where
  "toLowerCase s =
     map (\<lambda>c. if 65 \<le> (of_char c :: nat) \<and> (of_char c :: nat) \<le> 90
              then char_of ((of_char c :: nat) + 32) else c) s"

section \<open>Text normalisation and the answer-line parser (utils/reader.tsx)\<close>

subsection \<open>JavaScript strings and regular expressions\<close>






text \<open>
  Splitting at every character that satisfies \<open>D\<close>; \<^verbatim>\<open>s.split(' ')\<close> splits at the
  spaces, and \<^verbatim>\<open>words.join(' ')\<close> puts them back.
\<close>

fun splitWhere :: "(char \<Rightarrow> bool) \<Rightarrow> string \<Rightarrow> string list" where
  "splitWhere D [] = [[]]"
| "splitWhere D (c # cs) =
     (if D c then [] # splitWhere D cs
      else (case splitWhere D cs of [] \<Rightarrow> [[c]] | w # ws \<Rightarrow> (c # w) # ws))"

definition splitOn :: "char \<Rightarrow> string \<Rightarrow> string list" where
  "splitOn d s = splitWhere (\<lambda>c. c = d) s"

fun joinWith :: "char \<Rightarrow> string list \<Rightarrow> string" where
  "joinWith d [] = []"
| "joinWith d [w] = w"
| "joinWith d (w # ws) = w @ d # joinWith d ws"

text \<open>
  \<^verbatim>\<open>s.lastIndexOf(c, from)\<close> for a character: the greatest index at most \<open>from\<close> that
  holds \<open>c\<close>, or -1.
\<close>

fun lastIndexOfChar :: "string \<Rightarrow> char \<Rightarrow> nat \<Rightarrow> int" where
  "lastIndexOfChar s c 0 = (if s \<noteq> [] \<and> s ! 0 = c then 0 else - 1)"
| "lastIndexOfChar s c (Suc n) =
     (if Suc n < length s \<and> s ! Suc n = c then int (Suc n) else lastIndexOfChar s c n)"



subsection \<open>What the sources do not contain\<close>

text \<open>
  The natural-language library compromise (\<^verbatim>\<open>nlp(s).normalize('light').text()\<close>), the
  package number-to-words (\<^verbatim>\<open>toWords\<close>) and the helper \<^verbatim>\<open>removeFirstNames\<close> of
  utils/string are not among the sources and are not described closely enough to be
  computed; they are parameters of the model.
\<close>

record deps =
  nlpLight :: "string \<Rightarrow> string"
  toWords :: "string \<Rightarrow> string"
  removeFirstNames :: "string \<Rightarrow> string"

definition isLetter :: "char \<Rightarrow> bool" where
  "isLetter c = ((65 \<le> (of_char c :: nat) \<and> (of_char c :: nat) \<le> 90)
                 \<or> (97 \<le> (of_char c :: nat) \<and> (of_char c :: nat) \<le> 122))"

definition isDigit :: "char \<Rightarrow> bool" where
  "isDigit c = (48 \<le> (of_char c :: nat) \<and> (of_char c :: nat) \<le> 57)"

text \<open>
  Modelled from the spec: \<^verbatim>\<open>normalizeSpacing\<close> of utils/string, which is not among the
  sources.  The normal form is whitespace-collapsed: every run of white space becomes one
  space, and none is left at either end.
\<close>

fun collapseSpaces :: "bool \<Rightarrow> string \<Rightarrow> string" where
  "collapseSpaces pending [] = []"
| "collapseSpaces pending (c # cs) =
     (if isWhitespace c then collapseSpaces True cs
      else (if pending then CHR '' '' # c # collapseSpaces False cs
            else c # collapseSpaces False cs))"

definition normalizeSpacing :: "string \<Rightarrow> string" where
  "normalizeSpacing s = collapseSpaces False (dropWhile isWhitespace s)"

text \<open>
  Modelled from the spec: \<^verbatim>\<open>removeNonAlphanumeric\<close> of utils/regex, which is not among
  the sources.  The normal form is punctuation-stripped: every character other than a
  letter, a digit or white space is deleted.
\<close>

definition removeNonAlphanumeric :: "string \<Rightarrow> string" where
  "removeNonAlphanumeric s = filter (\<lambda>c. isLetter c \<or> isDigit c \<or> isWhitespace c) s"

text \<open>
  Modelled from the spec: the regex \<^verbatim>\<open>quotes\<close> of utils/regex, which is not among the
  sources; \<^verbatim>\<open>replaceAll(quotes, '')\<close> deletes the quotation marks, a part of the
  punctuation that the normal form does not keep.
\<close>

definition removeQuotes :: "string \<Rightarrow> string" where
  "removeQuotes s = filter (\<lambda>c. c \<notin> set [CHR 0x22, CHR 0x27, CHR 0x60]) s"











subsection \<open>The normaliser\<close>

text \<open>\<^verbatim>\<open>isNumeric\<close>: the regex \<^verbatim>\<open>/^-?\d+$/\<close>.\<close>

definition isNumeric :: "string \<Rightarrow> bool" where
  "isNumeric s =
     (case s of
        [] \<Rightarrow> False
      | c # cs \<Rightarrow> (if c = CHR ''-'' then cs \<noteq> [] \<and> list_all isDigit cs
                   else list_all isDigit (c # cs)))"

definition convertNumberToWords :: "(string \<Rightarrow> string) \<Rightarrow> string \<Rightarrow> string" where
  "convertNumberToWords toWords' s =
     joinWith CHR '' '' (map (\<lambda>w. if isNumeric w then toWords' w else w) (splitOn CHR '' '' s))"

definition normalizeAnswer :: "deps \<Rightarrow> string \<Rightarrow> string" where
  "normalizeAnswer d s =
     normalizeSpacing
       (removeNonAlphanumeric
          (toLowerCase
             (convertNumberToWords (toWords d) (removeQuotes (nlpLight d s)))))"

subsection \<open>Cleaning the answer line\<close>




subsection \<open>The regular expressions of the parser\<close>







subsection \<open>The negation filter and the two parsers\<close>





section \<open>Predicates used in the statements\<close>

text \<open>A string in which white space occurs only as single spaces between other characters.\<close>

fun wellSpaced :: "string \<Rightarrow> bool" where
  "wellSpaced [] = True"
| "wellSpaced [c] = (\<not> isWhitespace c)"
| "wellSpaced (c # d # cs) =
     (\<not> isWhitespace c
      \<and> (if isWhitespace d then d = CHR '' '' \<and> cs \<noteq> [] \<and> wellSpaced cs
         else wellSpaced (d # cs)))"

definition isUpper :: "char \<Rightarrow> bool" where
  "isUpper c = (65 \<le> (of_char c :: nat) \<and> (of_char c :: nat) \<le> 90)"

text \<open>
  The characters with a meaning for the parser: the angle brackets of the markup, the
  ampersand of the escaped ones, brackets and parentheses.
\<close>

definition markupChar :: "char \<Rightarrow> bool" where
  "markupChar c = (c \<in> set ''<>&[]()'')"



text \<open>
  A plain answer: one or more words separated by single spaces, each word non-empty, free
  of markup characters, commas, semicolons and white space, and none of the words that the
  parser's regular expressions and its negation filter look for.
\<close>

definition plainChar :: "char \<Rightarrow> bool" where
  "plainChar c = (\<not> markupChar c \<and> c \<notin> set '',;'' \<and> \<not> isWhitespace c)"





section \<open>Sample data for the concrete evaluations\<close>

definition sampleTossup :: Tossup where
  "sampleTossup =
     \<lparr>tossup_text = ''This emperor lost at Waterloo.'', answer = ''Napoleon Bonaparte'',
      formattedText = ''This emperor lost at Waterloo.'',
      formattedAnswer = ''<strong>Napoleon</strong> Bonaparte'',
      category = 1, subcategory = 2, difficulty = 3, tournament = ''Sample Open''\<rparr>"

definition sampleBuzz :: TossupBuzz where
  "sampleBuzz = \<lparr>isPower = False, readText = ''This emperor'', index = 1, textWithBuzz = []\<rparr>"

definition sampleResult :: "bool \<Rightarrow> int \<Rightarrow> TossupResult" where
  "sampleResult ok points =
     \<lparr>result_tossup = sampleTossup, result_isCorrect = ok,
      result_submittedAnswer = ''napoleon'', result_score = points, result_buzz = sampleBuzz\<rparr>"

definition sampleJudge :: Judge where
  "sampleJudge =
     \<lparr>acceptableAnswers = [''napoleon i''], promptableAnswers = [''corsican'', ''bonaparte'']\<rparr>"

text \<open>
  Stand-ins for the parameters in the concrete evaluations: on the plain ASCII inputs
  evaluated here the light normalisation of compromise has nothing to clean and is taken
  as the identity, \<^verbatim>\<open>toWords\<close> is given on the numerals that occur, and
  \<^verbatim>\<open>removeFirstNames\<close> strips the one first name that occurs.
\<close>

definition sampleToWords :: "string \<Rightarrow> string" where
  "sampleToWords w =
     (if w = ''1'' then ''one'' else if w = ''1000'' then ''one thousand'' else w)"

definition sampleRemoveFirstNames :: "string \<Rightarrow> string" where
  "sampleRemoveFirstNames s =
     (if prefix ''Napoleon '' s then drop (length ''Napoleon '') s else s)"

definition sampleDeps :: deps where
  "sampleDeps =
     \<lparr>nlpLight = (\<lambda>s. s), toWords = sampleToWords,
      removeFirstNames = sampleRemoveFirstNames\<rparr>"

section \<open>Properties of the scoring functions\<close>

lemma correctCount_filter:
  "fold (\<lambda>res acc. acc + (if isCorrect res then 1 else 0)) rs a
     = a + int (length (filter isCorrect rs))"
  by (induction rs arbitrary: a) auto

text \<open>
  C4.  For each of the eight combinations of the three flags the tossup score is: the
  power value when correct in power, the base value 10 when correct outside power (and
  the power value is strictly greater than the base value), zero when incorrect with the
  buzz at the final word, and the negative penalty when incorrect with an earlier buzz.
\<close>

theorem getTossupScore_table:
  "getTossupScore True True atEnd = TossupScore_power
   \<and> getTossupScore True False atEnd = TossupScore_ten
   \<and> TossupScore_ten = 10
   \<and> TossupScore_ten < TossupScore_power
   \<and> getTossupScore False inPower True = 0
   \<and> getTossupScore False inPower False = TossupScore_neg
   \<and> TossupScore_neg < 0"
  by (simp add: getTossupScore_def TossupScore_power_def TossupScore_ten_def
      TossupScore_incorrect_def TossupScore_neg_def)

text \<open>
  C5.  On a list of exactly three bonus part results the bonus score depends only on the
  number of correct parts: it is ten times that number, hence 30, 20, 10 or 0 for three,
  two, one or no correct part.
\<close>

theorem getBonusScore_three_parts:
  assumes "length rs = 3"
  shows "getBonusScore rs = 10 * int (length (filter isCorrect rs))
         \<and> length (filter isCorrect rs) \<le> 3"
proof -
  have le: "length (filter isCorrect rs) \<le> 3"
    using assms length_filter_le[of isCorrect rs] by simp
  have cnt: "correctCount rs = int (length (filter isCorrect rs))"
    by (simp add: correctCount_def correctCount_filter)
  from le have "length (filter isCorrect rs) = 0 \<or> length (filter isCorrect rs) = 1
      \<or> length (filter isCorrect rs) = 2 \<or> length (filter isCorrect rs) = 3"
    by arith
  then have "getBonusScore rs = 10 * int (length (filter isCorrect rs))"
    by (auto simp: getBonusScore_def cnt BonusScore_zero_def BonusScore_ten_def
        BonusScore_twenty_def BonusScore_thirty_def)
  with le show ?thesis by simp
qed

text \<open>The parts judged correct, incorrect, correct score 20.\<close>

theorem getBonusScore_three_parts_witness:
  "length [\<lparr>isCorrect = True\<rparr>, \<lparr>isCorrect = False\<rparr>, \<lparr>isCorrect = True\<rparr>] = 3
   \<and> getBonusScore [\<lparr>isCorrect = True\<rparr>, \<lparr>isCorrect = False\<rparr>, \<lparr>isCorrect = True\<rparr>] = 20"
  using getBonusScore_three_parts
          [of "[\<lparr>isCorrect = True\<rparr>, \<lparr>isCorrect = False\<rparr>, \<lparr>isCorrect = True\<rparr>]"]
  by simp

section \<open>Properties of the tossup reader slice\<close>

lemmas reducer_defs =
  buzz_def setBuzz_def prompt_def submitAnswer_def filterTossupsByCategory_def
  filterTossupsBySubcategory_def filterTossupsByDifficulties_def fetchTossups_fulfilled_def
  nextTossup_condition_def nextTossup_pending_def nextTossup_fulfilled_def

text \<open>
  While a request for the next tossup is pending the status is fetching, and at most one
  request is pending: the thunk's condition lets a request start only from idle or judged,
  and no reducer leaves fetching except the one that completes the request.
\<close>

lemma reachable_inFlight:
  "reachable c \<Longrightarrow> inFlight c = 0 \<or> (status (reader c) = fetching \<and> inFlight c = 1)"
proof (induction rule: reachable.induct)
  case reachable_init
  then show ?case by (simp add: initialConfig_def)
next
  case (reachable_step c a c')
  then show ?case
    by (cases a) (auto simp: reducer_defs split: if_splits)
qed

lemma dispatch_legal:
  assumes "reachable c" and "dispatch c a = Some c'"
  shows "status (reader c') = status (reader c)
         \<or> legal_transition (status (reader c)) (status (reader c'))"
  using reachable_inFlight[OF assms(1)] assms(2)
  by (cases a) (auto simp: reducer_defs split: if_splits)

text \<open>
  C8.  The buzz action takes reading to answering and leaves every other status as it is;
  the prompt action sets prompting from answering or prompting only; a completed request
  for the next tossup yields empty on an empty queue and reading otherwise; and every
  action the store lets through in a reachable configuration either keeps the status or
  follows an arrow of the status diagram (none leaves empty).
\<close>

theorem reader_status_transitions:
  "status (buzz state) = (if status state = reading then answering else status state)
   \<and> status (prompt state) =
       (if status state = answering \<or> status state = prompting then prompting
        else status state)
   \<and> status (nextTossup_fulfilled state) = (if tossups state = [] then empty else reading)
   \<and> (reachable c \<and> dispatch c a = Some c' \<longrightarrow>
        status (reader c') = status (reader c)
        \<or> legal_transition (status (reader c)) (status (reader c')))"
  using dispatch_legal[of c a c'] by (simp add: reducer_defs)

text \<open>
  From the initial state a request for the next tossup starts (idle to fetching); when it
  completes on the empty queue the status becomes empty (fetching to empty).
\<close>

theorem reader_status_transitions_witness:
  "reachable \<lparr>reader = initialState\<lparr>status := fetching\<rparr>, inFlight = 1\<rparr>
   \<and> dispatch \<lparr>reader = initialState\<lparr>status := fetching\<rparr>, inFlight = 1\<rparr> NextTossupFulfilled
       = Some \<lparr>reader = initialState\<lparr>status := empty\<rparr>, inFlight = 0\<rparr>
   \<and> legal_transition fetching empty
   \<and> status (buzz (initialState\<lparr>status := reading\<rparr>)) = answering
   \<and> status (prompt (initialState\<lparr>status := answering\<rparr>)) = prompting
   \<and> status (nextTossup_fulfilled (initialState\<lparr>status := fetching, tossups := [sampleTossup]\<rparr>))
       = reading"
proof -
  let ?c1 = "\<lparr>reader = initialState\<lparr>status := fetching\<rparr>, inFlight = 1\<rparr>"
  let ?c2 = "\<lparr>reader = initialState\<lparr>status := empty\<rparr>, inFlight = 0\<rparr>"
  have "dispatch initialConfig NextTossupPending = Some ?c1"
    by (simp add: initialConfig_def initialState_def reducer_defs)
  then have r: "reachable ?c1"
    using reachable_init reachable_step by blast
  have d: "dispatch ?c1 NextTossupFulfilled = Some ?c2"
    by (simp add: initialState_def reducer_defs)
  have l: "status (reader ?c2) = status (reader ?c1)
           \<or> legal_transition (status (reader ?c1)) (status (reader ?c2))"
    using reader_status_transitions[of _ ?c1 NextTossupFulfilled ?c2] r d by blast
  have b: "status (buzz (initialState\<lparr>status := reading\<rparr>)) = answering"
    using reader_status_transitions[of "initialState\<lparr>status := reading\<rparr>"] by simp
  have p: "status (prompt (initialState\<lparr>status := answering\<rparr>)) = prompting"
    using reader_status_transitions[of "initialState\<lparr>status := answering\<rparr>"] by simp
  have n: "status (nextTossup_fulfilled (initialState\<lparr>status := fetching, tossups := [sampleTossup]\<rparr>))
             = reading"
    using reader_status_transitions
            [of "initialState\<lparr>status := fetching, tossups := [sampleTossup]\<rparr>"]
    by simp
  from r d l b p n show ?thesis by simp
qed

text \<open>
  C9 as stated fails: the new result is not appended at the end of the history.  With one
  result recorded, submitting a second puts the second in front of the first.
\<close>

theorem submitAnswer_append_counterexample:
  "results (submitAnswer (initialState\<lparr>status := answering, results := [sampleResult True 10]\<rparr>)
              (sampleResult False (- 5)))
     \<noteq> [sampleResult True 10] @ [sampleResult False (- 5)]"
  by (simp add: submitAnswer_def initialState_def sampleResult_def)

text \<open>
  C9, amended.  A submit in the status answering or prompting moves to judged, puts the
  result in front of the history, whose earlier entries follow unaltered and in their
  order, stores it as the current result and adds its points to the score; the queue, the
  current tossup and the current buzz stay as they are.  In every other status the submit
  changes nothing.
\<close>

theorem submitAnswer_effect:
  "(status state = answering \<or> status state = prompting \<longrightarrow>
      status (submitAnswer state payload) = judged
      \<and> results (submitAnswer state payload) = payload # results state
      \<and> drop 1 (results (submitAnswer state payload)) = results state
      \<and> score (submitAnswer state payload) = score state + result_score payload
      \<and> currentResult (submitAnswer state payload) = Obj payload
      \<and> tossups (submitAnswer state payload) = tossups state
      \<and> currentTossup (submitAnswer state payload) = currentTossup state
      \<and> currentBuzz (submitAnswer state payload) = currentBuzz state)
   \<and> (status state \<noteq> answering \<and> status state \<noteq> prompting \<longrightarrow>
      submitAnswer state payload = state)"
  by (simp add: submitAnswer_def)

theorem submitAnswer_effect_witness:
  "status (submitAnswer (initialState\<lparr>status := prompting, results := [sampleResult False (- 5)],
                                       score := - 5\<rparr>) (sampleResult True 15)) = judged
   \<and> results (submitAnswer (initialState\<lparr>status := prompting, results := [sampleResult False (- 5)],
                                       score := - 5\<rparr>) (sampleResult True 15))
       = [sampleResult True 15, sampleResult False (- 5)]
   \<and> score (submitAnswer (initialState\<lparr>status := prompting, results := [sampleResult False (- 5)],
                                       score := - 5\<rparr>) (sampleResult True 15)) = 10
   \<and> submitAnswer (initialState\<lparr>status := reading\<rparr>) (sampleResult True 15)
       = initialState\<lparr>status := reading\<rparr>"
  using submitAnswer_effect
          [of "initialState\<lparr>status := prompting, results := [sampleResult False (- 5)],
                              score := - 5\<rparr>" "sampleResult True 15"]
        submitAnswer_effect[of "initialState\<lparr>status := reading\<rparr>" "sampleResult True 15"]
  by (simp add: sampleResult_def)

section \<open>Properties of the judge\<close>

subsection \<open>The best match\<close>

lemma bestMatchLoop_fold:
  "snd (bestMatchLoop xs i best r) = fold max xs r"
  by (induction xs arbitrary: i best r) (auto simp: max_def)

lemma bestMatchLoop_max:
  "snd (bestMatchLoop xs i best r) = Max (set (r # xs))"
  by (simp only: bestMatchLoop_fold Max.set_eq_fold)

lemma bestMatchLoop_index:
  "fst (bestMatchLoop xs i best r) = best \<and> snd (bestMatchLoop xs i best r) = r \<and> (\<forall>x \<in> set xs. x \<le> r)
   \<or> (\<exists>k < length xs. fst (bestMatchLoop xs i best r) = i + k \<and> xs ! k = snd (bestMatchLoop xs i best r)
         \<and> r < xs ! k \<and> (\<forall>j < k. xs ! j < xs ! k))"
proof (induction xs arbitrary: i best r)
  case Nil
  then show ?case by simp
next
  case (Cons x xs)
  show ?case
  proof (cases "x > r")
    case True
    from Cons[of "Suc i" i x]
    show ?thesis
    proof
      assume a: "fst (bestMatchLoop xs (Suc i) i x) = i \<and> snd (bestMatchLoop xs (Suc i) i x) = x \<and> (\<forall>y\<in>set xs. y \<le> x)"
      have "\<exists>k<length (x # xs). fst (bestMatchLoop (x # xs) i best r) = i + k \<and>
          (x # xs) ! k = snd (bestMatchLoop (x # xs) i best r) \<and> r < (x # xs) ! k \<and> (\<forall>j<k. (x # xs) ! j < (x # xs) ! k)"
        using a True by (intro exI[of _ 0]) simp
      then show ?thesis by blast
    next
      assume "\<exists>k<length xs. fst (bestMatchLoop xs (Suc i) i x) = Suc i + k \<and>
         xs ! k = snd (bestMatchLoop xs (Suc i) i x) \<and> x < xs ! k \<and> (\<forall>j<k. xs ! j < xs ! k)"
      then obtain k where k: "k < length xs" "fst (bestMatchLoop xs (Suc i) i x) = Suc i + k"
         "xs ! k = snd (bestMatchLoop xs (Suc i) i x)" "x < xs ! k" "\<forall>j<k. xs ! j < xs ! k" by blast
      have "\<exists>k<length (x # xs). fst (bestMatchLoop (x # xs) i best r) = i + k \<and>
          (x # xs) ! k = snd (bestMatchLoop (x # xs) i best r) \<and> r < (x # xs) ! k \<and> (\<forall>j<k. (x # xs) ! j < (x # xs) ! k)"
        using k True by (intro exI[of _ "Suc k"]) (auto simp: nth_Cons split: nat.splits)
      then show ?thesis by blast
    qed
  next
    case False
    from Cons[of "Suc i" best r]
    show ?thesis
    proof
      assume "fst (bestMatchLoop xs (Suc i) best r) = best \<and> snd (bestMatchLoop xs (Suc i) best r) = r \<and> (\<forall>y\<in>set xs. y \<le> r)"
      then show ?thesis using False by auto
    next
      assume "\<exists>k<length xs. fst (bestMatchLoop xs (Suc i) best r) = Suc i + k \<and>
         xs ! k = snd (bestMatchLoop xs (Suc i) best r) \<and> r < xs ! k \<and> (\<forall>j<k. xs ! j < xs ! k)"
      then obtain k where k: "k < length xs" "fst (bestMatchLoop xs (Suc i) best r) = Suc i + k"
         "xs ! k = snd (bestMatchLoop xs (Suc i) best r)" "r < xs ! k" "\<forall>j<k. xs ! j < xs ! k" by blast
      have "\<exists>k<length (x # xs). fst (bestMatchLoop (x # xs) i best r) = i + k \<and>
          (x # xs) ! k = snd (bestMatchLoop (x # xs) i best r) \<and> r < (x # xs) ! k \<and> (\<forall>j<k. (x # xs) ! j < (x # xs) ! k)"
        using k False by (intro exI[of _ "Suc k"]) (auto simp: nth_Cons split: nat.splits)
      then show ?thesis by blast
    qed
  qed
qed


lemma checkAnswer_rating:
  "bestMatchRating (checkAnswer sim s xs) = bestRating sim s xs"
  by (cases xs) (simp_all add: checkAnswer_def findBestMatch_def bestRating_def bestMatchLoop_max)

lemma checkAnswer_index_Cons:
  "\<exists>k<length (t # ts). bestMatchIndex (checkAnswer sim s (t # ts)) = int k
           \<and> sim s ((t # ts) ! k) = bestRating sim s (t # ts)
           \<and> (\<forall>j<k. sim s ((t # ts) ! j) < sim s ((t # ts) ! k))"
proof -
  let ?rs = "map (sim s) ts"
  let ?res = "bestMatchLoop ?rs 1 0 (sim s t)"
  have idx: "bestMatchIndex (checkAnswer sim s (t # ts)) = int (fst ?res)"
    by (simp add: checkAnswer_def findBestMatch_def Let_def)
  have rat: "bestRating sim s (t # ts) = snd ?res"
    using checkAnswer_rating[of sim s "t # ts"]
    by (simp add: checkAnswer_def findBestMatch_def Let_def)
  from bestMatchLoop_index[of ?rs 1 0 "sim s t"]
  show ?thesis
  proof
    assume a: "fst ?res = 0 \<and> snd ?res = sim s t \<and> (\<forall>x\<in>set ?rs. x \<le> sim s t)"
    show ?thesis
      using a by (intro exI[of _ 0]) (simp add: idx rat)
  next
    assume "\<exists>k<length ?rs. fst ?res = 1 + k \<and> ?rs ! k = snd ?res \<and> sim s t < ?rs ! k
              \<and> (\<forall>j<k. ?rs ! j < ?rs ! k)"
    then obtain k where k: "k < length ts" "fst ?res = Suc k" "sim s (ts ! k) = snd ?res"
      "sim s t < sim s (ts ! k)" "\<forall>j<k. sim s (ts ! j) < sim s (ts ! k)"
      by auto
    have "\<forall>j<Suc k. sim s ((t # ts) ! j) < sim s ((t # ts) ! Suc k)"
      using k by (auto simp: nth_Cons split: nat.splits)
    then show ?thesis
      using k by (intro exI[of _ "Suc k"]) (simp add: idx rat)
  qed
qed

lemma checkAnswer_index:
  assumes "xs \<noteq> []"
  shows "\<exists>k<length xs. bestMatchIndex (checkAnswer sim s xs) = int k
           \<and> sim s (xs ! k) = bestRating sim s xs
           \<and> (\<forall>j<k. sim s (xs ! j) < sim s (xs ! k))"
proof -
  from assms obtain t ts where xs: "xs = t # ts" by (cases xs) auto
  show ?thesis unfolding xs by (rule checkAnswer_index_Cons)
qed

lemma splice1_nat: "k < length xs \<Longrightarrow> splice1 (int k) xs = take k xs @ drop (Suc k) xs"
  by (simp add: splice1_def)

lemma bestRating_le_iff:
  "bestRating sim s xs \<le> MIN_RATING \<longleftrightarrow> (\<forall>x \<in> set xs. sim s x \<le> MIN_RATING)"
proof (cases "xs = []")
  case True
  then show ?thesis by (simp add: bestRating_def MIN_RATING_def)
next
  case False
  then have "Max (set (map (sim s) xs)) \<le> MIN_RATING \<longleftrightarrow> (\<forall>a\<in>set (map (sim s) xs). a \<le> MIN_RATING)"
    by (intro Max_le_iff) simp_all
  with False show ?thesis by (simp add: bestRating_def)
qed

lemma judge_cases:
  "judge sim J s =
     (if MIN_RATING < bestRating sim s (acceptableAnswers J) then (Correct, J)
      else if promptableAnswers J \<noteq> [] \<and> MIN_RATING < bestRating sim s (promptableAnswers J)
      then (Prompt, J\<lparr>promptableAnswers := splice1 (bestMatchIndex (checkAnswer sim s (promptableAnswers J))) (promptableAnswers J)\<rparr>)
      else (Incorrect, J))"
  by (simp add: judge_def checkAnswer_rating Let_def)


lemma bestRating_gt_iff:
  "MIN_RATING < bestRating sim s xs \<longleftrightarrow> (\<exists>x \<in> set xs. MIN_RATING < sim s x)"
  using bestRating_le_iff[of sim s xs] by (auto simp: not_le[symmetric])

lemma judge_Prompt_index:
  assumes "fst (judge sim J s) = Prompt"
  shows "\<exists>i<length (promptableAnswers J).
           promptableAnswers (snd (judge sim J s))
             = take i (promptableAnswers J) @ drop (Suc i) (promptableAnswers J)
           \<and> sim s (promptableAnswers J ! i) = bestRating sim s (promptableAnswers J)
           \<and> MIN_RATING < sim s (promptableAnswers J ! i)
           \<and> (\<forall>j<i. sim s (promptableAnswers J ! j) < sim s (promptableAnswers J ! i))"
proof -
  let ?p = "promptableAnswers J"
  from assms have ne: "?p \<noteq> []" and gt: "MIN_RATING < bestRating sim s ?p"
    by (auto simp: judge_cases split: if_splits)
  from checkAnswer_index[OF ne, of sim s]
  obtain k where k: "k < length ?p" "bestMatchIndex (checkAnswer sim s ?p) = int k"
    "sim s (?p ! k) = bestRating sim s ?p" "\<forall>j<k. sim s (?p ! j) < sim s (?p ! k)"
    by blast
  from assms ne gt have "promptableAnswers (snd (judge sim J s)) = splice1 (int k) ?p"
    by (auto simp: judge_cases k(2) split: if_splits)
  with k gt show ?thesis
    by (intro exI[of _ k]) (simp add: splice1_nat)
qed

subsection \<open>The verdict\<close>

text \<open>
  C1 as stated fails: the judge does not normalise the submission.  The normaliser
  lower-cases its argument, and against the acceptable answer \<open>napoleon\<close> the lower-cased
  submission rates 1; the judge rates the submission \<open>NAPOLEON\<close> as it is, finds no
  common bigram and returns incorrect.
\<close>

theorem judge_normalizes_counterexample:
  "fst (judge compareTwoStrings \<lparr>acceptableAnswers = [''napoleon''], promptableAnswers = []\<rparr>
          ''NAPOLEON'') = Incorrect
   \<and> MIN_RATING < bestRating compareTwoStrings (toLowerCase ''NAPOLEON'') [''napoleon'']"
  by code_simp

text \<open>
  C1, amended.  The judge rates the submission exactly as it is passed in against every
  acceptable answer and returns correct if and only if the best of these ratings exceeds
  0.6, that is, if some acceptable answer rates above 0.6; the promptable answers decide
  the verdict only when it does not: then the verdict is prompt if and only if the best
  rating among the promptable answers exceeds 0.6, and incorrect if and only if neither
  list has a rating above 0.6.  An empty list has the best rating 0.
\<close>

theorem judge_verdict:
  "MIN_RATING = 6 / 10
   \<and> (fst (judge sim J s) = Correct
        \<longleftrightarrow> MIN_RATING < bestRating sim s (acceptableAnswers J))
   \<and> (MIN_RATING < bestRating sim s (acceptableAnswers J)
        \<longleftrightarrow> (\<exists>a \<in> set (acceptableAnswers J). MIN_RATING < sim s a))
   \<and> (MIN_RATING < bestRating sim s (acceptableAnswers J) \<longrightarrow> judge sim J s = (Correct, J))
   \<and> (fst (judge sim J s) = Prompt
        \<longleftrightarrow> \<not> MIN_RATING < bestRating sim s (acceptableAnswers J)
            \<and> MIN_RATING < bestRating sim s (promptableAnswers J))
   \<and> (fst (judge sim J s) = Incorrect
        \<longleftrightarrow> \<not> MIN_RATING < bestRating sim s (acceptableAnswers J)
            \<and> \<not> MIN_RATING < bestRating sim s (promptableAnswers J))
   \<and> bestRating sim s [] = 0"
proof -
  have e: "\<not> MIN_RATING < bestRating sim s []"
    by (simp add: bestRating_def MIN_RATING_def)
  have "fst (judge sim J s) = Correct \<longleftrightarrow> MIN_RATING < bestRating sim s (acceptableAnswers J)"
    by (simp add: judge_cases)
  moreover have "fst (judge sim J s) = Prompt
        \<longleftrightarrow> \<not> MIN_RATING < bestRating sim s (acceptableAnswers J)
            \<and> MIN_RATING < bestRating sim s (promptableAnswers J)"
    using e by (cases "promptableAnswers J = []") (simp_all add: judge_cases)
  moreover have "fst (judge sim J s) = Incorrect
        \<longleftrightarrow> \<not> MIN_RATING < bestRating sim s (acceptableAnswers J)
            \<and> \<not> MIN_RATING < bestRating sim s (promptableAnswers J)"
    using e by (cases "promptableAnswers J = []") (simp_all add: judge_cases)
  moreover have "MIN_RATING < bestRating sim s (acceptableAnswers J) \<longrightarrow> judge sim J s = (Correct, J)"
    by (simp add: judge_cases)
  ultimately show ?thesis
    using bestRating_gt_iff[of sim s "acceptableAnswers J"]
    by (simp add: MIN_RATING_def bestRating_def)
qed

text \<open>
  On the sample judge the submission \<open>napoleon\<close> rates 14/15 against \<open>napoleon i\<close> and is
  correct, \<open>bonaparte\<close> is rated above 0.6 only by a promptable answer, and \<open>wellington\<close>
  by none.
\<close>

theorem judge_verdict_witness:
  "(\<exists>a \<in> set (acceptableAnswers sampleJudge). MIN_RATING < compareTwoStrings ''napoleon'' a)
   \<and> judge compareTwoStrings sampleJudge ''napoleon'' = (Correct, sampleJudge)
   \<and> fst (judge compareTwoStrings sampleJudge ''bonaparte'') = Prompt
   \<and> fst (judge compareTwoStrings sampleJudge ''wellington'') = Incorrect"
proof -
  have a: "MIN_RATING < bestRating compareTwoStrings ''napoleon'' (acceptableAnswers sampleJudge)"
    by code_simp
  have b: "\<not> MIN_RATING < bestRating compareTwoStrings ''bonaparte'' (acceptableAnswers sampleJudge)
           \<and> MIN_RATING < bestRating compareTwoStrings ''bonaparte'' (promptableAnswers sampleJudge)"
    by code_simp
  have c: "\<not> MIN_RATING < bestRating compareTwoStrings ''wellington'' (acceptableAnswers sampleJudge)
           \<and> \<not> MIN_RATING < bestRating compareTwoStrings ''wellington'' (promptableAnswers sampleJudge)"
    by code_simp
  show ?thesis
    using a b c
      judge_verdict[of compareTwoStrings sampleJudge "''napoleon''"]
      judge_verdict[of compareTwoStrings sampleJudge "''bonaparte''"]
      judge_verdict[of compareTwoStrings sampleJudge "''wellington''"]
    by blast
qed

subsection \<open>A consumed prompt\<close>

text \<open>
  C2.  When a call returns prompt, it has removed one entry of the promptable answers, at
  an index \<open>i\<close> whose rating exceeds 0.6.  A second call with the same submission on the
  judge left behind is not correct, works on the list without that entry (which, the
  entries being distinct, no longer contains the consumed answer), and returns incorrect
  when no other entry of the original list rated above 0.6.
\<close>

theorem judge_prompt_consumed:
  assumes "judge sim J s = (Prompt, J')"
  shows "\<exists>i<length (promptableAnswers J).
           MIN_RATING < sim s (promptableAnswers J ! i)
           \<and> promptableAnswers J' = take i (promptableAnswers J) @ drop (Suc i) (promptableAnswers J)
           \<and> acceptableAnswers J' = acceptableAnswers J
           \<and> fst (judge sim J' s) \<noteq> Correct
           \<and> (distinct (promptableAnswers J) \<longrightarrow> promptableAnswers J ! i \<notin> set (promptableAnswers J'))
           \<and> ((\<forall>j<length (promptableAnswers J). j \<noteq> i \<longrightarrow> sim s (promptableAnswers J ! j) \<le> MIN_RATING)
                \<longrightarrow> judge sim J' s = (Incorrect, J'))"
proof -
  let ?p = "promptableAnswers J"
  from assms have v: "fst (judge sim J s) = Prompt" and J': "J' = snd (judge sim J s)"
    by simp_all
  from judge_Prompt_index[OF v] J'
  obtain i where i: "i < length ?p" "promptableAnswers J' = take i ?p @ drop (Suc i) ?p"
    "MIN_RATING < sim s (?p ! i)"
    by blast
  from v have nc: "\<not> MIN_RATING < bestRating sim s (acceptableAnswers J)"
    by (auto simp: judge_cases split: if_splits)
  have acc: "acceptableAnswers J' = acceptableAnswers J"
    using v by (auto simp: J' judge_cases split: if_splits)
  have notc: "fst (judge sim J' s) \<noteq> Correct"
    using nc by (simp add: judge_cases acc)
  have dist: "distinct ?p \<longrightarrow> ?p ! i \<notin> set (promptableAnswers J')"
  proof
    assume d: "distinct ?p"
    have "?p = take i ?p @ (?p ! i) # drop (Suc i) ?p"
      using i(1) by (simp add: id_take_nth_drop)
    then have "distinct (take i ?p @ (?p ! i) # drop (Suc i) ?p)"
      using d by simp
    then show "?p ! i \<notin> set (promptableAnswers J')"
      by (simp add: i(2))
  qed
  have inc: "(\<forall>j<length ?p. j \<noteq> i \<longrightarrow> sim s (?p ! j) \<le> MIN_RATING)
               \<longrightarrow> judge sim J' s = (Incorrect, J')"
  proof
    assume o: "\<forall>j<length ?p. j \<noteq> i \<longrightarrow> sim s (?p ! j) \<le> MIN_RATING"
    have "\<forall>x \<in> set (promptableAnswers J'). sim s x \<le> MIN_RATING"
    proof
      fix x assume "x \<in> set (promptableAnswers J')"
      then have "x \<in> set (take i ?p) \<or> x \<in> set (drop (Suc i) ?p)"
        by (simp add: i(2))
      then show "sim s x \<le> MIN_RATING"
      proof
        assume "x \<in> set (take i ?p)"
        then obtain j where "j < i" "x = ?p ! j"
          using i(1) by (auto simp: in_set_conv_nth)
        with o i(1) show ?thesis by simp
      next
        assume "x \<in> set (drop (Suc i) ?p)"
        then obtain j where "j < length ?p - Suc i" "x = ?p ! (Suc i + j)"
          by (auto simp: in_set_conv_nth)
        with o show ?thesis by simp
      qed
    qed
    then have "\<not> MIN_RATING < bestRating sim s (promptableAnswers J')"
      using bestRating_le_iff[of sim s "promptableAnswers J'"] by simp
    with nc show "judge sim J' s = (Incorrect, J')"
      by (simp add: judge_cases acc)
  qed
  from i acc notc dist inc show ?thesis by blast
qed

text \<open>
  The submission \<open>bonaparte\<close> on the sample judge: the first call prompts and consumes
  \<open>bonaparte\<close>, the second call returns incorrect.
\<close>

theorem judge_prompt_consumed_witness:
  "judge compareTwoStrings sampleJudge ''bonaparte''
     = (Prompt, sampleJudge\<lparr>promptableAnswers := [''corsican'']\<rparr>)
   \<and> (\<exists>i<length (promptableAnswers sampleJudge).
         MIN_RATING < compareTwoStrings ''bonaparte'' (promptableAnswers sampleJudge ! i)
         \<and> [''corsican''] = take i (promptableAnswers sampleJudge)
                               @ drop (Suc i) (promptableAnswers sampleJudge)
         \<and> (\<forall>j<length (promptableAnswers sampleJudge). j \<noteq> i \<longrightarrow>
               compareTwoStrings ''bonaparte'' (promptableAnswers sampleJudge ! j) \<le> MIN_RATING))
   \<and> judge compareTwoStrings (sampleJudge\<lparr>promptableAnswers := [''corsican'']\<rparr>) ''bonaparte''
       = (Incorrect, sampleJudge\<lparr>promptableAnswers := [''corsican'']\<rparr>)"
proof -
  let ?J' = "sampleJudge\<lparr>promptableAnswers := [''corsican'']\<rparr>"
  have first: "judge compareTwoStrings sampleJudge ''bonaparte'' = (Prompt, ?J')"
    by code_simp
  from judge_prompt_consumed[OF first]
  obtain i where i: "i < length (promptableAnswers sampleJudge)"
    "MIN_RATING < compareTwoStrings ''bonaparte'' (promptableAnswers sampleJudge ! i)"
    "promptableAnswers ?J' = take i (promptableAnswers sampleJudge)
                               @ drop (Suc i) (promptableAnswers sampleJudge)"
    "(\<forall>j<length (promptableAnswers sampleJudge). j \<noteq> i \<longrightarrow>
         compareTwoStrings ''bonaparte'' (promptableAnswers sampleJudge ! j) \<le> MIN_RATING)
      \<longrightarrow> judge compareTwoStrings ?J' ''bonaparte'' = (Incorrect, ?J')"
    by blast
  have len: "length (promptableAnswers sampleJudge) = 2"
    by (simp add: sampleJudge_def)
  have r0: "\<not> MIN_RATING < compareTwoStrings ''bonaparte'' (promptableAnswers sampleJudge ! 0)"
    by code_simp
  from i(1) len have "i = 0 \<or> i = 1" by arith
  with i(2) r0 have i1: "i = 1" by auto
  have others: "\<forall>j<length (promptableAnswers sampleJudge). j \<noteq> i \<longrightarrow>
         compareTwoStrings ''bonaparte'' (promptableAnswers sampleJudge ! j) \<le> MIN_RATING"
    using r0 len i1 by (auto simp: less_Suc_eq numeral_2_eq_2)
  with i(4) have second: "judge compareTwoStrings ?J' ''bonaparte'' = (Incorrect, ?J')"
    by blast
  from i(3) have "[''corsican''] = take i (promptableAnswers sampleJudge)
                               @ drop (Suc i) (promptableAnswers sampleJudge)"
    by simp
  with first second i(1) i(2) others show ?thesis by blast
qed

subsection \<open>What a call changes\<close>

text \<open>
  C10.  A call leaves the acceptable answers unchanged.  Unless the verdict is prompt it
  leaves the whole judge unchanged.  When the verdict is prompt, exactly one entry of the
  promptable answers is removed, the entries before and after it keeping their order; the
  removed entry is the first one with the best rating.
\<close>

theorem judge_frame:
  "acceptableAnswers (snd (judge sim J s)) = acceptableAnswers J
   \<and> (fst (judge sim J s) \<noteq> Prompt \<longrightarrow> snd (judge sim J s) = J)
   \<and> (fst (judge sim J s) = Prompt \<longrightarrow>
        (\<exists>i<length (promptableAnswers J).
           promptableAnswers (snd (judge sim J s))
             = take i (promptableAnswers J) @ drop (Suc i) (promptableAnswers J)
           \<and> length (promptableAnswers (snd (judge sim J s))) + 1 = length (promptableAnswers J)
           \<and> sim s (promptableAnswers J ! i) = bestRating sim s (promptableAnswers J)
           \<and> (\<forall>j<i. sim s (promptableAnswers J ! j) < sim s (promptableAnswers J ! i))))"
proof -
  have a: "acceptableAnswers (snd (judge sim J s)) = acceptableAnswers J"
    by (simp add: judge_cases)
  have b: "fst (judge sim J s) \<noteq> Prompt \<longrightarrow> snd (judge sim J s) = J"
    by (simp add: judge_cases)
  have c: "fst (judge sim J s) = Prompt \<longrightarrow>
        (\<exists>i<length (promptableAnswers J).
           promptableAnswers (snd (judge sim J s))
             = take i (promptableAnswers J) @ drop (Suc i) (promptableAnswers J)
           \<and> length (promptableAnswers (snd (judge sim J s))) + 1 = length (promptableAnswers J)
           \<and> sim s (promptableAnswers J ! i) = bestRating sim s (promptableAnswers J)
           \<and> (\<forall>j<i. sim s (promptableAnswers J ! j) < sim s (promptableAnswers J ! i)))"
  proof
    assume "fst (judge sim J s) = Prompt"
    from judge_Prompt_index[OF this]
    obtain i where i: "i < length (promptableAnswers J)"
      "promptableAnswers (snd (judge sim J s))
             = take i (promptableAnswers J) @ drop (Suc i) (promptableAnswers J)"
      "sim s (promptableAnswers J ! i) = bestRating sim s (promptableAnswers J)"
      "\<forall>j<i. sim s (promptableAnswers J ! j) < sim s (promptableAnswers J ! i)"
      by blast
    have "length (take i (promptableAnswers J) @ drop (Suc i) (promptableAnswers J)) + 1
            = length (promptableAnswers J)"
      using i(1) by simp
    with i show "\<exists>i<length (promptableAnswers J).
           promptableAnswers (snd (judge sim J s))
             = take i (promptableAnswers J) @ drop (Suc i) (promptableAnswers J)
           \<and> length (promptableAnswers (snd (judge sim J s))) + 1 = length (promptableAnswers J)
           \<and> sim s (promptableAnswers J ! i) = bestRating sim s (promptableAnswers J)
           \<and> (\<forall>j<i. sim s (promptableAnswers J ! j) < sim s (promptableAnswers J ! i))"
      by (intro exI[of _ i]) simp
  qed
  from a b c show ?thesis by blast
qed

text \<open>
  With two promptable answers that both rate above 0.6 the better one is removed and the
  other stays; a correct verdict leaves the judge as it was.
\<close>

theorem judge_frame_witness:
  "fst (judge compareTwoStrings
          \<lparr>acceptableAnswers = [''napoleon i''], promptableAnswers = [''bonapart'', ''bonaparte'']\<rparr>
          ''bonaparte'') = Prompt
   \<and> snd (judge compareTwoStrings
          \<lparr>acceptableAnswers = [''napoleon i''], promptableAnswers = [''bonapart'', ''bonaparte'']\<rparr>
          ''bonaparte'')
       = \<lparr>acceptableAnswers = [''napoleon i''], promptableAnswers = [''bonapart'']\<rparr>
   \<and> fst (judge compareTwoStrings sampleJudge ''napoleon'') \<noteq> Prompt
   \<and> snd (judge compareTwoStrings sampleJudge ''napoleon'') = sampleJudge"
proof -
  let ?J = "\<lparr>acceptableAnswers = [''napoleon i''], promptableAnswers = [''bonapart'', ''bonaparte'']\<rparr>"
  have v: "fst (judge compareTwoStrings ?J ''bonaparte'') = Prompt"
    by code_simp
  have r: "snd (judge compareTwoStrings ?J ''bonaparte'')
             = \<lparr>acceptableAnswers = [''napoleon i''], promptableAnswers = [''bonapart'']\<rparr>"
    by code_simp
  have n: "fst (judge compareTwoStrings sampleJudge ''napoleon'') \<noteq> Prompt"
    by code_simp
  from n judge_frame[of compareTwoStrings sampleJudge "''napoleon''"]
  have "snd (judge compareTwoStrings sampleJudge ''napoleon'') = sampleJudge"
    by blast
  with v r n show ?thesis
    using judge_frame[of compareTwoStrings ?J "''bonaparte''"] by blast
qed

section \<open>Properties of the normaliser and of the parser\<close>

subsection \<open>Splitting and joining\<close>


lemma splitWhere_nonempty: "splitWhere D s \<noteq> []"
  by (induction s) (auto split: list.splits)

lemma joinWith_Cons: "ws \<noteq> [] \<Longrightarrow> joinWith d (w # ws) = w @ d # joinWith d ws"
  by (cases ws) auto

lemma joinWith_splitOn: "joinWith d (splitOn d s) = s"
  unfolding splitOn_def
proof (induction s)
  case Nil
  then show ?case by simp
next
  case (Cons c cs)
  obtain w ws where sp: "splitWhere (\<lambda>c. c = d) cs = w # ws"
    using splitWhere_nonempty[of _ cs] by (cases "splitWhere (\<lambda>c. c = d) cs") auto
  show ?case
  proof (cases "c = d")
    case True
    then show ?thesis using Cons sp by (simp add: joinWith_Cons)
  next
    case False
    show ?thesis
      using False Cons sp by (cases ws) auto
  qed
qed


subsection \<open>Scanning a string in which nothing matches\<close>










subsection \<open>Words\<close>





lemma isWhitespace_space [simp]: "isWhitespace CHR '' ''"
  by (simp add: isWhitespace_def)






subsection \<open>The normaliser\<close>

lemma map_id_if: "\<forall>w \<in> set ws. \<not> P w \<Longrightarrow> map (\<lambda>w. if P w then f w else w) ws = ws"
  by (induction ws) auto

lemma convertNumberToWords_id:
  "\<not> list_ex isNumeric (splitOn CHR '' '' s) \<Longrightarrow> convertNumberToWords tw s = s"
  by (simp add: convertNumberToWords_def list_ex_iff map_id_if joinWith_splitOn)

lemma collapseSpaces_shape:
  "(p \<or> (s \<noteq> [] \<and> isWhitespace (hd s)) \<longrightarrow>
      collapseSpaces p s = []
      \<or> (\<exists>r. collapseSpaces p s = CHR '' '' # r \<and> r \<noteq> [] \<and> wellSpaced r))
   \<and> (\<not> p \<and> (s = [] \<or> \<not> isWhitespace (hd s)) \<longrightarrow> wellSpaced (collapseSpaces p s))"
proof (induction s arbitrary: p)
  case Nil
  then show ?case by simp
next
  case (Cons c cs)
  show ?case
  proof (cases "isWhitespace c")
    case True
    then show ?thesis using Cons[of True] by simp
  next
    case False
    have ws: "wellSpaced (c # collapseSpaces False cs)"
    proof (cases "cs = [] \<or> \<not> isWhitespace (hd cs)")
      case True
      then have w: "wellSpaced (collapseSpaces False cs)" using Cons[of False] by simp
      show ?thesis
      proof (cases "collapseSpaces False cs")
        case Nil
        then show ?thesis using False by simp
      next
        case (Cons e es)
        with w have "\<not> isWhitespace e" by (cases es) (auto split: if_splits)
        with w Cons False show ?thesis by simp
      qed
    next
      case False
      then have "collapseSpaces False cs = []
         \<or> (\<exists>r. collapseSpaces False cs = CHR '' '' # r \<and> r \<noteq> [] \<and> wellSpaced r)"
        using Cons[of False] by simp
      then show ?thesis using \<open>\<not> isWhitespace c\<close> by auto
    qed
    show ?thesis using False ws by simp
  qed
qed

lemma wellSpaced_normalizeSpacing: "wellSpaced (normalizeSpacing s)"
proof -
  let ?t = "dropWhile isWhitespace s"
  have "?t = [] \<or> \<not> isWhitespace (hd ?t)"
    by (metis hd_dropWhile)
  then show ?thesis
    using collapseSpaces_shape[of False ?t] by (simp add: normalizeSpacing_def)
qed

lemma wellSpaced_hd: "wellSpaced t \<Longrightarrow> t \<noteq> [] \<Longrightarrow> \<not> isWhitespace (hd t)"
  by (cases t rule: wellSpaced.cases) auto

lemma collapseSpaces_True: "cs \<noteq> [] \<Longrightarrow> \<not> isWhitespace (hd cs) \<Longrightarrow>
  collapseSpaces True cs = CHR '' '' # collapseSpaces False cs"
  by (cases cs) auto

lemma wellSpaced_collapse: "wellSpaced t \<Longrightarrow> collapseSpaces False t = t"
proof (induction t rule: wellSpaced.induct)
  case 1
  then show ?case by simp
next
  case (2 c)
  then show ?case by simp
next
  case (3 c d cs)
  show ?case
  proof (cases "isWhitespace d")
    case True
    with 3 have d: "d = CHR '' ''" "cs \<noteq> []" "wellSpaced cs" "\<not> isWhitespace c" by auto
    then have "collapseSpaces False cs = cs" using 3 True by simp
    moreover have "collapseSpaces True cs = CHR '' '' # collapseSpaces False cs"
      using d wellSpaced_hd[of cs] by (intro collapseSpaces_True) auto
    ultimately show ?thesis using d by simp
  next
    case False
    with 3 show ?thesis by simp
  qed
qed

lemma wellSpaced_fixed: "wellSpaced t \<Longrightarrow> normalizeSpacing t = t"
proof -
  assume w: "wellSpaced t"
  have "dropWhile isWhitespace t = t"
    using wellSpaced_hd[OF w] by (cases t) auto
  with w show ?thesis by (simp add: normalizeSpacing_def wellSpaced_collapse)
qed

lemma set_collapseSpaces:
  "set (collapseSpaces p s) \<subseteq> insert CHR '' '' {c \<in> set s. \<not> isWhitespace c}"
  by (induction s arbitrary: p) auto

lemma set_normalizeSpacing:
  "set (normalizeSpacing s) \<subseteq> insert CHR '' '' {c \<in> set s. \<not> isWhitespace c}"
proof -
  have "set (dropWhile isWhitespace s) \<subseteq> set s"
    by (simp add: set_dropWhileD subsetI)
  then show ?thesis
    using set_collapseSpaces[of False "dropWhile isWhitespace s"]
    by (auto simp: normalizeSpacing_def)
qed

lemma toLowerCase_noUpper: "c \<in> set (toLowerCase s) \<Longrightarrow> \<not> isUpper c"
  by (auto simp: toLowerCase_def isUpper_def)

lemma toLowerCase_fixed: "\<forall>c \<in> set t. \<not> isUpper c \<Longrightarrow> toLowerCase t = t"
  by (induction t) (auto simp: toLowerCase_def isUpper_def)


lemma normalizeAnswer_chars:
  assumes "c \<in> set (normalizeAnswer d s)"
  shows "(isLetter c \<or> isDigit c \<or> c = CHR '' '') \<and> \<not> isUpper c"
proof -
  let ?u = "toLowerCase (convertNumberToWords (toWords d) (removeQuotes (nlpLight d s)))"
  from assms have "c \<in> insert CHR '' '' {c \<in> set (removeNonAlphanumeric ?u). \<not> isWhitespace c}"
    using set_normalizeSpacing[of "removeNonAlphanumeric ?u"] by (auto simp: normalizeAnswer_def)
  then have "c = CHR '' '' \<or> (c \<in> set ?u \<and> (isLetter c \<or> isDigit c))"
    by (auto simp: removeNonAlphanumeric_def)
  then show ?thesis
  proof
    assume "c = CHR '' ''"
    then show ?thesis by (simp add: isUpper_def)
  next
    assume "c \<in> set ?u \<and> (isLetter c \<or> isDigit c)"
    then show ?thesis using toLowerCase_noUpper[of c] by blast
  qed
qed

lemma removeQuotes_fixed:
  "\<forall>c \<in> set t. isLetter c \<or> isDigit c \<or> c = CHR '' '' \<Longrightarrow> removeQuotes t = t"
  by (induction t) (auto simp: removeQuotes_def isLetter_def isDigit_def)

lemma removeNonAlphanumeric_fixed:
  "\<forall>c \<in> set t. isLetter c \<or> isDigit c \<or> c = CHR '' '' \<Longrightarrow> removeNonAlphanumeric t = t"
  by (induction t) (auto simp: removeNonAlphanumeric_def)

lemma normalizeAnswer_idem:
  assumes nlp: "nlpLight d (normalizeAnswer d s) = normalizeAnswer d s"
    and num: "\<not> list_ex isNumeric (splitOn CHR '' '' (normalizeAnswer d s))"
  shows "normalizeAnswer d (normalizeAnswer d s) = normalizeAnswer d s"
proof -
  let ?t = "normalizeAnswer d s"
  have ch: "\<forall>c \<in> set ?t. isLetter c \<or> isDigit c \<or> c = CHR '' ''"
    and lo: "\<forall>c \<in> set ?t. \<not> isUpper c"
    using normalizeAnswer_chars[of _ d s] by blast+
  have ws: "wellSpaced ?t"
    unfolding normalizeAnswer_def by (rule wellSpaced_normalizeSpacing)
  have "normalizeAnswer d ?t
          = normalizeSpacing (removeNonAlphanumeric (toLowerCase
              (convertNumberToWords (toWords d) (removeQuotes ?t))))"
    using nlp by (simp add: normalizeAnswer_def)
  also have "\<dots> = normalizeSpacing (removeNonAlphanumeric (toLowerCase
              (convertNumberToWords (toWords d) ?t)))"
    by (simp only: removeQuotes_fixed[OF ch])
  also have "\<dots> = normalizeSpacing (removeNonAlphanumeric (toLowerCase ?t))"
    by (simp only: convertNumberToWords_id[OF num])
  also have "\<dots> = normalizeSpacing (removeNonAlphanumeric ?t)"
    by (simp only: toLowerCase_fixed[OF lo])
  also have "\<dots> = normalizeSpacing ?t"
    by (simp only: removeNonAlphanumeric_fixed[OF ch])
  also have "\<dots> = ?t"
    by (rule wellSpaced_fixed[OF ws])
  finally show ?thesis .
qed

text \<open>
  C7 as stated fails.  A word such as \<open>1,000\<close> is not numeric when the numerals are
  spelled out, because of its comma; the punctuation is stripped afterwards, so the normal
  form is \<open>1000\<close>, and normalising that once more spells it out.  (Evaluated with
  the stand-ins for the two libraries: the natural-language normalisation leaves both
  plain strings as they are.)
\<close>

theorem normalizeAnswer_idempotent_counterexample:
  "normalizeAnswer sampleDeps (normalizeAnswer sampleDeps ''1,000'')
     \<noteq> normalizeAnswer sampleDeps ''1,000''"
  by code_simp

text \<open>
  C7, amended.  Normalising twice gives the same as normalising once for every input whose
  normal form contains no numeric word (a word of digits, which a second pass would spell
  out), provided the natural-language normalisation leaves that normal form unchanged.
\<close>

theorem normalizeAnswer_idempotent:
  assumes "nlpLight d (normalizeAnswer d s) = normalizeAnswer d s"
    and "\<not> list_ex isNumeric (splitOn CHR '' '' (normalizeAnswer d s))"
  shows "normalizeAnswer d (normalizeAnswer d s) = normalizeAnswer d s"
  using assms by (rule normalizeAnswer_idem)

theorem normalizeAnswer_idempotent_witness:
  "nlpLight sampleDeps (normalizeAnswer sampleDeps ''  The  BIG Apple! '')
     = normalizeAnswer sampleDeps ''  The  BIG Apple! ''
   \<and> \<not> list_ex isNumeric (splitOn CHR '' '' (normalizeAnswer sampleDeps ''  The  BIG Apple! ''))
   \<and> normalizeAnswer sampleDeps ''  The  BIG Apple! '' = ''the big apple''
   \<and> normalizeAnswer sampleDeps (normalizeAnswer sampleDeps ''  The  BIG Apple! '')
       = normalizeAnswer sampleDeps ''  The  BIG Apple! ''"
proof -
  have a: "nlpLight sampleDeps (normalizeAnswer sampleDeps ''  The  BIG Apple! '')
             = normalizeAnswer sampleDeps ''  The  BIG Apple! ''"
    by code_simp
  have b: "\<not> list_ex isNumeric
               (splitOn CHR '' '' (normalizeAnswer sampleDeps ''  The  BIG Apple! ''))"
    by code_simp
  have c: "normalizeAnswer sampleDeps ''  The  BIG Apple! '' = ''the big apple''"
    by code_simp
  from a b c normalizeAnswer_idempotent[OF a b] show ?thesis by blast
qed


subsection \<open>A line without special tokens\<close>















subsection \<open>Plain answers\<close>




lemma not_plainChar [simp]:
  "\<not> plainChar CHR '' ''" "\<not> plainChar CHR ''[''" "\<not> plainChar CHR '']''"
  "\<not> plainChar CHR ''(''" "\<not> plainChar CHR '')''" "\<not> plainChar CHR '',''" "\<not> plainChar CHR '';''"
  by (simp_all add: plainChar_def markupChar_def isWhitespace_def)

subsection \<open>Lazy groups over words\<close>




















subsection \<open>All matches of the regex for the acceptable answers\<close>










subsection \<open>The negation filter on the two matches\<close>



lemma lastIndexOfChar_absent: "ch \<notin> set s \<Longrightarrow> lastIndexOfChar s ch n = - 1"
proof (induction n)
  case 0
  then show ?case by (cases s) auto
next
  case (Suc n)
  then show ?case by (auto simp: in_set_conv_nth)
qed

















subsection \<open>Cleaning the line\<close>

















subsection \<open>The parse of the line\<close>








end
